theory Spec2Isabelle
  imports Complex_Main
begin

section \<open>Vectors and numbers\<close>

text \<open>
  A \<^verbatim>\<open>Vector2\<close> holds two JavaScript numbers. Grid cells carry integral values and draw
  positions carry interpolated ones, in the same class, so both coordinates are reals here.
  Rounding and the infinities of IEEE doubles are not part of the model.
\<close>

record Vector2 =
  x :: real
  y :: real

text \<open>
  Modelled from the spec: the class \<^verbatim>\<open>Vector2\<close> of \<^verbatim>\<open>utils/utils\<close> is imported by the
  player file and is not part of the sources. \<^verbatim>\<open>Vector2.zero\<close> is read as a fresh vector
  (0, 0) at every use, \<^verbatim>\<open>add\<close> as the component-wise sum (the candidate cell is the head's
  cell plus the direction) and \<^verbatim>\<open>equals\<close> as value equality of cells.
\<close>

definition zero :: Vector2 where
  "zero = \<lparr>x = 0, y = 0\<rparr>"

definition add :: "Vector2 \<Rightarrow> Vector2 \<Rightarrow> Vector2" where
  "add a b = \<lparr>x = x a + x b, y = y a + y b\<rparr>"

definition equals :: "Vector2 \<Rightarrow> Vector2 \<Rightarrow> bool" where
  "equals a b \<longleftrightarrow> x a = x b \<and> y a = y b"

text \<open>
  The elapsed time handed to the smoothing step is a JavaScript number that may be
  \<^verbatim>\<open>NaN\<close>; \<^verbatim>\<open>isNaN\<close> is the only test the source applies to it.
\<close>

datatype number = NaN | Num real

fun isNaN :: "number \<Rightarrow> bool" where
  "isNaN NaN = True"
| "isNaN (Num r) = False"

text \<open>Multiplication of a number by a numeric constant, as in \<^verbatim>\<open>timeDelta * 20\<close>.\<close>

fun times_number :: "number \<Rightarrow> real \<Rightarrow> number" where
  "times_number NaN c = NaN"
| "times_number (Num r) c = Num (r * c)"

text \<open>
  Modelled from the spec: \<^verbatim>\<open>MyMath.lerp\<close> of \<^verbatim>\<open>utils/utils\<close> is not part of the sources;
  the spec calls it linear interpolation from the first argument toward the second.
\<close>

definition lerp :: "real \<Rightarrow> real \<Rightarrow> real \<Rightarrow> real" where
  "lerp a b t = a + (b - a) * t"

section \<open>Movement processor\<close>

text \<open>
  Modelled from the spec: the class \<^verbatim>\<open>PlayerMovementProcessor\<close> of
  \<^verbatim>\<open>player/player-movement\<close> is not part of the sources. Following the spec it keeps the
  committed direction and at most one pending direction. A key press whose direction is the
  opposite of the committed direction is dropped; any other direction key replaces the pending
  direction. \<^verbatim>\<open>updateDirection\<close> commits the pending direction, if there is one, and returns
  the committed direction as a vector. The spec does not name the default direction, so the
  constructor takes it as an argument.
\<close>

datatype Direction = Up | Down | Left | Right

fun opposite :: "Direction \<Rightarrow> Direction" where
  "opposite Up = Down"
| "opposite Down = Up"
| "opposite Left = Right"
| "opposite Right = Left"

fun dirVector :: "Direction \<Rightarrow> Vector2" where
  "dirVector Up = \<lparr>x = 0, y = -1\<rparr>"
| "dirVector Down = \<lparr>x = 0, y = 1\<rparr>"
| "dirVector Left = \<lparr>x = -1, y = 0\<rparr>"
| "dirVector Right = \<lparr>x = 1, y = 0\<rparr>"

record KeyboardEvent =
  key :: string
  code :: string

definition keyDirection :: "KeyboardEvent \<Rightarrow> Direction option" where
  "keyDirection e =
     (if key e = ''ArrowUp'' then Some Up
      else if key e = ''ArrowDown'' then Some Down
      else if key e = ''ArrowLeft'' then Some Left
      else if key e = ''ArrowRight'' then Some Right
      else None)"

record PlayerMovementProcessor =
  curDirection :: Direction
  queuedDirection :: "Direction option"

definition newPlayerMovementProcessor :: "Direction \<Rightarrow> PlayerMovementProcessor" where
  "newPlayerMovementProcessor dflt = \<lparr>curDirection = dflt, queuedDirection = None\<rparr>"

definition movement_onKeyDown :: "KeyboardEvent \<Rightarrow> PlayerMovementProcessor \<Rightarrow> PlayerMovementProcessor" where
  "movement_onKeyDown e mp =
     (case keyDirection e of
        None \<Rightarrow> mp
      | Some d \<Rightarrow> if d = opposite (curDirection mp) then mp
                  else mp\<lparr>queuedDirection := Some d\<rparr>)"

definition updateDirection :: "PlayerMovementProcessor \<Rightarrow> Vector2 \<times> PlayerMovementProcessor" where
  "updateDirection mp =
     (case queuedDirection mp of
        None \<Rightarrow> (dirVector (curDirection mp), mp)
      | Some d \<Rightarrow> (dirVector d, mp\<lparr>curDirection := d, queuedDirection := None\<rparr>))"

section \<open>Board\<close>

text \<open>
  Modelled from the spec: the class \<^verbatim>\<open>Board\<close> of \<^verbatim>\<open>board/board\<close> is not part of the
  sources. The controller builds it with \<^verbatim>\<open>boardNumCellsWide\<close> cells per side; a cell is
  inside the board iff both coordinates are at least 0 and below that width, and the center
  cell has both coordinates equal to half the width, rounded down.
\<close>

definition boardNumCellsWide :: nat where
  "boardNumCellsWide = 9"

definition cellIsInsideBoard :: "Vector2 \<Rightarrow> bool" where
  "cellIsInsideBoard c \<longleftrightarrow>
     0 \<le> x c \<and> x c < real boardNumCellsWide \<and> 0 \<le> y c \<and> y c < real boardNumCellsWide"

definition getCenterCell :: Vector2 where
  "getCenterCell = \<lparr>x = real (boardNumCellsWide div 2), y = real (boardNumCellsWide div 2)\<rparr>"

section \<open>Snake segments\<close>

text \<open>
  Segments are objects that the snake's array and the \<^verbatim>\<open>nextSegment\<close> fields share by
  reference. The model keeps them in a store, a list indexed by reference; \<^verbatim>\<open>new\<close> appends
  to it. \<^verbatim>\<open>null\<close> and \<^verbatim>\<open>undefined\<close> are both \<open>None\<close>: the source tests the field only
  for truthiness and with \<^verbatim>\<open>?.\<close>.

  The two positions are held by value. The source copies them on every read through the
  getters; the one place where the two fields come to share an object is the instant move,
  and the only in-place writes that follow, in \<^verbatim>\<open>moveDrawPosTowardsTgtPos\<close>, then store
  \<open>lerp a a t\<close>, which is \<open>a\<close> (lemma \<open>lerp_same\<close>).
\<close>

type_synonym ref = nat

record SnakeSegment =
  isControllable :: bool
  nextSegment :: "ref option"
  tgtCellPos :: Vector2
  drawCellPos :: Vector2

text \<open>The constructor: the target cell is the next segment's, or zero without one; the
  draw position is set to the same coordinates.\<close>

definition newSnakeSegment :: "SnakeSegment list \<Rightarrow> ref option \<Rightarrow> bool \<Rightarrow> SnakeSegment" where
  "newSnakeSegment store segment controllable =
     (let tgt = (case segment of None \<Rightarrow> zero | Some n \<Rightarrow> tgtCellPos (store ! n))
      in \<lparr>isControllable = controllable, nextSegment = segment,
          tgtCellPos = tgt, drawCellPos = tgt\<rparr>)"

definition moveToCell :: "Vector2 \<Rightarrow> bool \<Rightarrow> SnakeSegment \<Rightarrow> SnakeSegment" where
  "moveToCell cellPos instant seg =
     (if \<not> isControllable seg then seg
      else let seg' = seg\<lparr>tgtCellPos := cellPos\<rparr>
           in if instant then seg'\<lparr>drawCellPos := tgtCellPos seg'\<rparr> else seg')"

text \<open>\<^verbatim>\<open>followSegment\<close> of the segment at reference \<open>a\<close>: it reads the next segment through
  the store, as it is at the moment of the call.\<close>

definition followSegment :: "ref \<Rightarrow> SnakeSegment list \<Rightarrow> SnakeSegment list" where
  "followSegment a store =
     (case nextSegment (store ! a) of
        None \<Rightarrow> store
      | Some n \<Rightarrow> store[a := (store ! a)\<lparr>tgtCellPos := tgtCellPos (store ! n)\<rparr>])"

text \<open>\<^verbatim>\<open>moveDrawPosTowardsTgtPos\<close>: \<open>td\<close> is the elapsed time after the \<^verbatim>\<open>isNaN\<close> guard has
  replaced \<^verbatim>\<open>NaN\<close> by 0, and \<open>min td 1\<close> is the factor of both interpolations.\<close>

definition moveDrawPosTowardsTgtPos :: "number \<Rightarrow> SnakeSegment \<Rightarrow> SnakeSegment" where
  "moveDrawPosTowardsTgtPos timeDelta seg =
     (let td = (if isNaN timeDelta then 0 else (case timeDelta of Num r \<Rightarrow> r | NaN \<Rightarrow> 0));
          seg1 = seg\<lparr>drawCellPos := (drawCellPos seg)
                   \<lparr>x := lerp (x (drawCellPos seg)) (x (tgtCellPos seg)) (min td 1)\<rparr>\<rparr>
      in seg1\<lparr>drawCellPos := (drawCellPos seg1)
                   \<lparr>y := lerp (y (drawCellPos seg1)) (y (tgtCellPos seg1)) (min td 1)\<rparr>\<rparr>)"

section \<open>The snake\<close>

text \<open>
  \<open>deathSubject\<close> records the values emitted on the subject so far, oldest first. The drawing
  context and the head width serve the canvas only and are left out.
\<close>

record Snake =
  movementProcessor :: PlayerMovementProcessor
  segmentStore :: "SnakeSegment list"
  snakeSegments :: "ref list"
  snakeHeadSegment :: ref
  deathSubject :: "bool list"

definition onKeyDown :: "KeyboardEvent \<Rightarrow> Snake \<Rightarrow> Snake" where
  "onKeyDown e s = s\<lparr>movementProcessor := movement_onKeyDown e (movementProcessor s)\<rparr>"

definition cellIsInsidePlayer :: "Snake \<Rightarrow> Vector2 \<Rightarrow> bool" where
  "cellIsInsidePlayer s tgtCell =
     list_ex (\<lambda>i. equals (tgtCellPos (segmentStore s ! (snakeSegments s ! i))) tgtCell)
       [1 ..< length (snakeSegments s) - 1]"

definition die :: "Snake \<Rightarrow> Snake" where
  "die s = s\<lparr>deathSubject := deathSubject s @ [True]\<rparr>"

definition moveInDirection :: "Vector2 \<Rightarrow> Snake \<Rightarrow> Snake" where
  "moveInDirection dir s =
     (let store1 = fold followSegment (rev (snakeSegments s)) (segmentStore s);
          h = snakeHeadSegment s
      in s\<lparr>segmentStore :=
             store1[h := moveToCell (add (tgtCellPos (store1 ! h)) dir) False (store1 ! h)]\<rparr>)"

definition update :: "Snake \<Rightarrow> Snake" where
  "update s =
     (let (moveDirection, mp) = updateDirection (movementProcessor s);
          s1 = s\<lparr>movementProcessor := mp\<rparr>;
          tgtCell = add (tgtCellPos (segmentStore s1 ! snakeHeadSegment s1)) moveDirection;
          s2 = (if \<not> cellIsInsideBoard tgtCell \<or> cellIsInsidePlayer s1 tgtCell
                then die s1 else s1)
      in moveInDirection moveDirection s2)"

text \<open>The part of \<^verbatim>\<open>draw\<close> that changes state: every segment's draw position is moved
  with twenty times the frame's elapsed time. The canvas calls are left out.\<close>

definition draw :: "number \<Rightarrow> Snake \<Rightarrow> Snake" where
  "draw timeDelta s =
     s\<lparr>segmentStore :=
         fold (\<lambda>a store. store[a := moveDrawPosTowardsTgtPos (times_number timeDelta 20) (store ! a)])
           (snakeSegments s) (segmentStore s)\<rparr>"

text \<open>\<^verbatim>\<open>growSegment\<close>: reading the last element of an empty array gives \<^verbatim>\<open>undefined\<close>.\<close>

definition growSegment :: "Snake \<Rightarrow> Snake" where
  "growSegment s =
     (let lastSegment = (if snakeSegments s = [] then None else Some (last (snakeSegments s)));
          newSegment = newSnakeSegment (segmentStore s) lastSegment False
      in s\<lparr>segmentStore := segmentStore s @ [newSegment],
           snakeSegments := snakeSegments s @ [length (segmentStore s)]\<rparr>)"

definition resetForStart :: "Snake \<Rightarrow> Snake" where
  "resetForStart s =
     (let h = snakeHeadSegment s;
          s1 = s\<lparr>snakeSegments := []\<rparr>;
          s2 = s1\<lparr>segmentStore :=
                   (segmentStore s1)[h := moveToCell getCenterCell True (segmentStore s1 ! h)]\<rparr>;
          s3 = s2\<lparr>snakeSegments := snakeSegments s2 @ [h]\<rparr>
      in growSegment (growSegment (growSegment (growSegment (growSegment
          (growSegment (growSegment (growSegment (growSegment (growSegment s3))))))))))"

text \<open>The constructor of the snake, given the movement processor's default direction.\<close>

definition newSnake :: "Direction \<Rightarrow> Snake" where
  "newSnake dflt =
     resetForStart
       \<lparr>movementProcessor = newPlayerMovementProcessor dflt,
        segmentStore = [newSnakeSegment [] None True],
        snakeSegments = [],
        snakeHeadSegment = 0,
        deathSubject = []\<rparr>"

section \<open>Game controller\<close>

datatype GameState = MainMenu | Playing | GameOver | Victorious

text \<open>
  The controller owns the snake and the food dispenser; the snake reaches the controller
  through its \<^verbatim>\<open>gameControl\<close> reference, so operations that cross that reference act on the
  controller's record. \<open>preyDispenser\<close> is the active food cell, if any, and
  \<open>updateLoopRunning\<close> tells whether the interval registered under \<^verbatim>\<open>gameIntervalId\<close> is
  live.
\<close>

record GameController =
  player :: Snake
  preyDispenser :: "Vector2 option"
  score :: int
  gameState :: GameState
  updateLoopRunning :: bool



text \<open>
  Modelled from the spec: \<^verbatim>\<open>Board.getUnoccupiedCells\<close> is not part of the sources. It
  returns the cells of the full grid that are neither the target cell of a segment nor the
  active food cell.
\<close>

definition allCells :: "Vector2 list" where
  "allCells = concat (map (\<lambda>i. map (\<lambda>j. \<lparr>x = real i, y = real j\<rparr>) [0 ..< boardNumCellsWide])
                        [0 ..< boardNumCellsWide])"

definition segmentCells :: "Snake \<Rightarrow> Vector2 list" where
  "segmentCells s = map (\<lambda>a. tgtCellPos (segmentStore s ! a)) (snakeSegments s)"

definition getUnoccupiedCells :: "GameController \<Rightarrow> Vector2 list" where
  "getUnoccupiedCells g =
     filter (\<lambda>c. \<not> list_ex (\<lambda>d. equals d c) (segmentCells (player g)) \<and>
                 preyDispenser g \<noteq> Some c) allCells"

text \<open>
  Modelled from the spec: \<^verbatim>\<open>FoodDispenser.spawnNewPrey\<close> is not part of the sources. It
  picks one of the unoccupied cells at random and fails when there is none; the random
  draw is the argument \<open>pick\<close>. \<^verbatim>\<open>FoodDispenser.reset\<close> clears the active food.
\<close>

datatype error = NoUnoccupiedCell

definition spawnNewPrey :: "nat \<Rightarrow> GameController \<Rightarrow> error + Vector2" where
  "spawnNewPrey pick g =
     (let cells = getUnoccupiedCells g
      in if cells = [] then Inl NoUnoccupiedCell else Inr (cells ! (pick mod length cells)))"

text \<open>\<^verbatim>\<open>spawnPrey\<close>: the snake of the sources keeps no food cell, so \<^verbatim>\<open>setPrey\<close> leaves
  it as it is.\<close>

definition spawnPrey :: "nat \<Rightarrow> GameController \<Rightarrow> error + GameController" where
  "spawnPrey pick g =
     (case spawnNewPrey pick g of
        Inl e \<Rightarrow> Inl e
      | Inr newPrey \<Rightarrow> Inr (g\<lparr>preyDispenser := Some newPrey\<rparr>))"





text \<open>\<^verbatim>\<open>resetGame\<close>, in the source's order; the snake's reset is \<^verbatim>\<open>resetForStart\<close>, and
  the board of the model holds no state to reset.\<close>

definition resetGame :: "nat \<Rightarrow> GameController \<Rightarrow> error + GameController" where
  "resetGame pick g =
     (let g1 = g\<lparr>preyDispenser := None\<rparr>;
          g2 = g1\<lparr>player := resetForStart (player g1)\<rparr>;
          g3 = g2\<lparr>score := 0\<rparr>
      in spawnPrey pick g3)"




text \<open>The constructor, given the movement processor's default direction and the random
  draw of the first food cell.\<close>

definition newGameController :: "Direction \<Rightarrow> nat \<Rightarrow> error + GameController" where
  "newGameController dflt pick =
     resetGame pick
       \<lparr>player = newSnake dflt, preyDispenser = None, score = 0,
        gameState = MainMenu, updateLoopRunning = False\<rparr>"

section \<open>Well-formed chains\<close>

text \<open>
  The shape the constructor gives the chain and every operation keeps: the array starts with
  the head object, holds no object twice, every reference is allocated, the head is the one
  controllable segment, and each segment's \<^verbatim>\<open>nextSegment\<close> is the array element before it.
\<close>

fun linked :: "SnakeSegment list \<Rightarrow> ref option \<Rightarrow> ref list \<Rightarrow> bool" where
  "linked store prev [] = True"
| "linked store prev (a # as) = (nextSegment (store ! a) = prev \<and> linked store (Some a) as)"

definition chain_ok :: "Snake \<Rightarrow> bool" where
  "chain_ok s \<longleftrightarrow>
     snakeSegments s \<noteq> [] \<and>
     hd (snakeSegments s) = snakeHeadSegment s \<and>
     distinct (snakeSegments s) \<and>
     list_all (\<lambda>a. a < length (segmentStore s)) (snakeSegments s) \<and>
     isControllable (segmentStore s ! snakeHeadSegment s) \<and>
     list_all (\<lambda>a. \<not> isControllable (segmentStore s ! a)) (tl (snakeSegments s)) \<and>
     linked (segmentStore s) None (snakeSegments s)"

text \<open>What \<^verbatim>\<open>resetForStart\<close> needs of the head object: it exists, it was built
  controllable and without a next segment, as the snake's constructor builds it.\<close>

definition head_ok :: "Snake \<Rightarrow> bool" where
  "head_ok s \<longleftrightarrow>
     snakeHeadSegment s < length (segmentStore s) \<and>
     isControllable (segmentStore s ! snakeHeadSegment s) \<and>
     nextSegment (segmentStore s ! snakeHeadSegment s) = None"

text \<open>Every segment of the chain has its target cell and its draw position at \<open>c\<close>.\<close>

definition all_at :: "Vector2 \<Rightarrow> Snake \<Rightarrow> bool" where
  "all_at c s \<longleftrightarrow>
     list_all (\<lambda>a. tgtCellPos (segmentStore s ! a) = c \<and> drawCellPos (segmentStore s ! a) = c)
       (snakeSegments s)"

text \<open>The state of \<^verbatim>\<open>resetForStart\<close> after the head is pushed and before the first
  \<^verbatim>\<open>growSegment\<close>.\<close>

definition reset_head :: "Snake \<Rightarrow> Snake" where
  "reset_head s =
     s\<lparr>segmentStore := (segmentStore s)[snakeHeadSegment s :=
          moveToCell getCenterCell True (segmentStore s ! snakeHeadSegment s)],
       snakeSegments := [snakeHeadSegment s]\<rparr>"

text \<open>The states the snake can be in: the constructor's, and those its methods lead to.\<close>

inductive reachable :: "Snake \<Rightarrow> bool" where
  constructed: "reachable (newSnake dflt)"
| key: "reachable s \<Longrightarrow> reachable (onKeyDown e s)"
| tick: "reachable s \<Longrightarrow> reachable (update s)"
| frame: "reachable s \<Longrightarrow> reachable (draw timeDelta s)"
| grown: "reachable s \<Longrightarrow> reachable (growSegment s)"
| reset: "reachable s \<Longrightarrow> reachable (resetForStart s)"

section \<open>The death condition in the spec's words\<close>

text \<open>
  The candidate cell is the head's target cell plus the direction committed on this tick.
  The death condition of the spec: the candidate cell is outside the board, or it is the
  target cell of some segment other than the current tail.
\<close>

definition candidateCell :: "Snake \<Rightarrow> Vector2" where
  "candidateCell s =
     add (tgtCellPos (segmentStore s ! hd (snakeSegments s)))
         (fst (updateDirection (movementProcessor s)))"

definition spec_deathCondition :: "Snake \<Rightarrow> bool" where
  "spec_deathCondition s \<longleftrightarrow>
     \<not> cellIsInsideBoard (candidateCell s) \<or>
     list_ex (\<lambda>a. equals (tgtCellPos (segmentStore s ! a)) (candidateCell s))
       (butlast (snakeSegments s))"

section \<open>Runs of the movement processor\<close>

text \<open>
  The inputs of the movement processor are key presses and ticks. For every tick of a run,
  \<open>tickDirections\<close> lists the vector of the direction committed before the tick together
  with the vector the tick returns. \<open>negate\<close> gives the exact opposite of a vector.
\<close>

datatype MoveInput = KeyPress KeyboardEvent | Tick

definition negate :: "Vector2 \<Rightarrow> Vector2" where
  "negate v = \<lparr>x = - x v, y = - y v\<rparr>"

fun tickDirections :: "PlayerMovementProcessor \<Rightarrow> MoveInput list \<Rightarrow> (Vector2 \<times> Vector2) list" where
  "tickDirections mp [] = []"
| "tickDirections mp (KeyPress e # inputs) = tickDirections (movement_onKeyDown e mp) inputs"
| "tickDirections mp (Tick # inputs) =
     (dirVector (curDirection mp), fst (updateDirection mp))
       # tickDirections (snd (updateDirection mp)) inputs"

text \<open>No direction queued is the opposite of the committed one.\<close>

definition queue_ok :: "PlayerMovementProcessor \<Rightarrow> bool" where
  "queue_ok mp \<longleftrightarrow> queuedDirection mp \<noteq> Some (opposite (curDirection mp))"

section \<open>Interpolation in the spec's words\<close>


section \<open>Example states\<close>

text \<open>
  \<open>snakeOf d cells deaths\<close> is the snake in the shape the constructor builds: the segments
  allocated in chain order with the given target cells, the draw positions still at the
  center, direction \<open>d\<close> committed, nothing queued, and \<open>deaths\<close> emitted so far.
\<close>

definition chainOf :: "Vector2 list \<Rightarrow> SnakeSegment list" where
  "chainOf cells =
     map (\<lambda>i. \<lparr>isControllable = (i = 0), nextSegment = (if i = 0 then None else Some (i - 1)),
                tgtCellPos = cells ! i, drawCellPos = getCenterCell\<rparr>) [0 ..< length cells]"

definition snakeOf :: "Direction \<Rightarrow> Vector2 list \<Rightarrow> bool list \<Rightarrow> Snake" where
  "snakeOf d cells deaths =
     \<lparr>movementProcessor = \<lparr>curDirection = d, queuedDirection = None\<rparr>,
      segmentStore = chainOf cells,
      snakeSegments = [0 ..< length cells],
      snakeHeadSegment = 0,
      deathSubject = deaths\<rparr>"

text \<open>A fresh snake that has moved left four times: its head is in column 0.\<close>

definition snakeAtLeftEdge :: Snake where
  "snakeAtLeftEdge = update (update (update (update (newSnake Left))))"






text \<open>A body segment one cell to the left of its target.\<close>

definition segmentLeftOfTarget :: SnakeSegment where
  "segmentLeftOfTarget =
     \<lparr>isControllable = False, nextSegment = Some 0,
      tgtCellPos = \<lparr>x = 1, y = 0\<rparr>, drawCellPos = \<lparr>x = 0, y = 0\<rparr>\<rparr>"

section \<open>Basic facts\<close>

lemma lerp_same: "lerp a a t = a"
  by (simp add: lerp_def)

subsection \<open>Following the next segment\<close>

lemma length_followSegment: "length (followSegment a st) = length st"
  by (simp add: followSegment_def split: option.split)

lemma followSegment_other: "b \<noteq> a \<Longrightarrow> followSegment a st ! b = st ! b"
  by (simp add: followSegment_def split: option.split)

lemma followSegment_nextSegment:
  "nextSegment (followSegment a st ! b) = nextSegment (st ! b)"
proof (cases "a < length st")
  case True
  then show ?thesis
    by (simp add: followSegment_def nth_list_update split: option.split)
next
  case False
  then have "length st \<le> a" by simp
  then show ?thesis
    by (simp add: followSegment_def list_update_beyond split: option.split)
qed

lemma followSegment_isControllable:
  "isControllable (followSegment a st ! b) = isControllable (st ! b)"
proof (cases "a < length st")
  case True
  then show ?thesis
    by (simp add: followSegment_def nth_list_update split: option.split)
next
  case False
  then have "length st \<le> a" by simp
  then show ?thesis
    by (simp add: followSegment_def list_update_beyond split: option.split)
qed

lemma followSegment_drawCellPos:
  "drawCellPos (followSegment a st ! b) = drawCellPos (st ! b)"
proof (cases "a < length st")
  case True
  then show ?thesis
    by (simp add: followSegment_def nth_list_update split: option.split)
next
  case False
  then have "length st \<le> a" by simp
  then show ?thesis
    by (simp add: followSegment_def list_update_beyond split: option.split)
qed

lemma followSegment_tgt:
  "a < length st \<Longrightarrow>
   tgtCellPos (followSegment a st ! a) =
     (case nextSegment (st ! a) of None \<Rightarrow> tgtCellPos (st ! a) | Some n \<Rightarrow> tgtCellPos (st ! n))"
  by (simp add: followSegment_def split: option.split)

lemma length_fold_follow: "length (fold followSegment as st) = length st"
  by (induction as arbitrary: st) (simp_all add: length_followSegment)

lemma fold_follow_other: "b \<notin> set as \<Longrightarrow> fold followSegment as st ! b = st ! b"
  by (induction as arbitrary: st) (simp_all add: followSegment_other)

lemma fold_follow_nextSegment:
  "nextSegment (fold followSegment as st ! b) = nextSegment (st ! b)"
  by (induction as arbitrary: st) (simp_all add: followSegment_nextSegment)

lemma fold_follow_isControllable:
  "isControllable (fold followSegment as st ! b) = isControllable (st ! b)"
  by (induction as arbitrary: st) (simp_all add: followSegment_isControllable)

lemma fold_follow_drawCellPos:
  "drawCellPos (fold followSegment as st ! b) = drawCellPos (st ! b)"
  by (induction as arbitrary: st) (simp_all add: followSegment_drawCellPos)

lemma linked_snoc:
  "linked st prev (as @ [a]) \<longleftrightarrow>
     linked st prev as \<and> nextSegment (st ! a) = (if as = [] then prev else Some (last as))"
  by (induction as arbitrary: prev) auto

lemma linked_cong:
  "(\<And>b. b \<in> set as \<Longrightarrow> nextSegment (st' ! b) = nextSegment (st ! b)) \<Longrightarrow>
   linked st' prev as = linked st prev as"
  by (induction as arbitrary: prev) auto

lemma linked_nth:
  "linked st prev as \<Longrightarrow> i < length as \<Longrightarrow>
   nextSegment (st ! (as ! i)) = (if i = 0 then prev else Some (as ! (i - 1)))"
proof (induction as arbitrary: prev i)
  case Nil
  then show ?case by simp
next
  case (Cons a as)
  show ?case
  proof (cases i)
    case 0
    with Cons.prems show ?thesis by simp
  next
    case (Suc j)
    with Cons.prems have "nextSegment (st ! (as ! j)) = (if j = 0 then Some a else Some (as ! (j - 1)))"
      using Cons.IH [of "Some a" j] by simp
    with Suc show ?thesis by (cases j) simp_all
  qed
qed

lemma fold_follow_chain:
  "distinct as \<Longrightarrow> linked st None as \<Longrightarrow> \<forall>a\<in>set as. a < length st \<Longrightarrow> i < length as \<Longrightarrow>
   tgtCellPos (fold followSegment (rev as) st ! (as ! i)) = tgtCellPos (st ! (as ! (i - 1)))"
proof (induction as arbitrary: st i rule: rev_induct)
  case Nil
  then show ?case by simp
next
  case (snoc a as)
  let ?st1 = "followSegment a st"
  from snoc.prems have dist: "distinct as" and notin: "a \<notin> set as" by simp_all
  from snoc.prems have lk: "linked st None as"
    and nxt: "nextSegment (st ! a) = (if as = [] then None else Some (last as))"
    by (simp_all add: linked_snoc)
  from snoc.prems have bound: "\<forall>b\<in>set as. b < length st" and abound: "a < length st" by simp_all
  have lk1: "linked ?st1 None as"
    using lk by (simp add: linked_cong [of as ?st1 st] followSegment_nextSegment)
  have bound1: "\<forall>b\<in>set as. b < length ?st1"
    using bound by (simp add: length_followSegment)
  have fold_eq: "fold followSegment (rev (as @ [a])) st = fold followSegment (rev as) ?st1"
    by simp
  show ?case
  proof (cases "i < length as")
    case True
    then have mem: "as ! i \<in> set as" and mem': "as ! (i - 1) \<in> set as" by simp_all
    have "tgtCellPos (fold followSegment (rev as) ?st1 ! (as ! i)) = tgtCellPos (?st1 ! (as ! (i - 1)))"
      using snoc.IH [OF dist lk1 bound1 True] .
    also have "?st1 ! (as ! (i - 1)) = st ! (as ! (i - 1))"
      using mem' notin by (intro followSegment_other) auto
    finally show ?thesis using True by (simp add: nth_append)
  next
    case False
    with snoc.prems have i: "i = length as" by simp
    have "fold followSegment (rev as) ?st1 ! a = ?st1 ! a"
      using notin by (simp add: fold_follow_other)
    moreover have "tgtCellPos (?st1 ! a) = tgtCellPos (st ! ((as @ [a]) ! (i - 1)))"
    proof (cases "as = []")
      case True
      with nxt abound i show ?thesis by (simp add: followSegment_tgt)
    next
      case False
      with nxt abound i show ?thesis
        by (simp add: followSegment_tgt nth_append last_conv_nth)
    qed
    ultimately show ?thesis using i by (simp del: fold_append rev_append add: fold_eq)
  qed
qed

subsection \<open>The update and the death condition\<close>

lemma updateDirection_dir: "\<exists>d. fst (updateDirection mp) = dirVector d"
  by (auto simp: updateDirection_def split: option.split)

lemma not_equals_add_dir: "\<not> equals c (add c (dirVector d))"
  by (cases d) (simp_all add: equals_def add_def)

lemma not_equals_add_updateDirection: "\<not> equals c (add c (fst (updateDirection mp)))"
  using updateDirection_dir [of mp] not_equals_add_dir by auto

lemma snakeSegments_moveInDirection: "snakeSegments (moveInDirection dir s) = snakeSegments s"
  by (simp add: moveInDirection_def Let_def)

lemma update_unfold:
  "update s =
     moveInDirection (fst (updateDirection (movementProcessor s)))
       ((if \<not> cellIsInsideBoard (add (tgtCellPos (segmentStore s ! snakeHeadSegment s))
                                       (fst (updateDirection (movementProcessor s)))) \<or>
            cellIsInsidePlayer s (add (tgtCellPos (segmentStore s ! snakeHeadSegment s))
                                       (fst (updateDirection (movementProcessor s))))
         then die else id)
        (s\<lparr>movementProcessor := snd (updateDirection (movementProcessor s))\<rparr>))"
  by (simp add: update_def Let_def split_beta cellIsInsidePlayer_def)

lemma snakeSegments_update: "snakeSegments (update s) = snakeSegments s"
  by (simp add: update_unfold snakeSegments_moveInDirection die_def)

lemma snakeHeadSegment_update: "snakeHeadSegment (update s) = snakeHeadSegment s"
  by (simp add: update_unfold moveInDirection_def Let_def die_def)

lemma segmentStore_update:
  "segmentStore (update s) =
     segmentStore (moveInDirection (fst (updateDirection (movementProcessor s))) s)"
  by (simp add: update_unfold moveInDirection_def Let_def die_def)

lemma deathSubject_update:
  "deathSubject (update s) =
     (if \<not> cellIsInsideBoard (add (tgtCellPos (segmentStore s ! snakeHeadSegment s))
                                     (fst (updateDirection (movementProcessor s)))) \<or>
         cellIsInsidePlayer s (add (tgtCellPos (segmentStore s ! snakeHeadSegment s))
                                     (fst (updateDirection (movementProcessor s))))
      then deathSubject s @ [True] else deathSubject s)"
  by (simp add: update_unfold moveInDirection_def Let_def die_def)

lemma list_ex_butlast_index:
  "list_ex P (butlast xs) \<longleftrightarrow> (\<exists>i. i < length xs - 1 \<and> P (xs ! i))"
  by (auto simp: list_ex_length nth_butlast)

lemma cellIsInsidePlayer_index:
  "cellIsInsidePlayer s c \<longleftrightarrow>
     (\<exists>i. 1 \<le> i \<and> i < length (snakeSegments s) - 1 \<and>
          equals (tgtCellPos (segmentStore s ! (snakeSegments s ! i))) c)"
  by (auto simp: cellIsInsidePlayer_def list_ex_iff)

lemma codeDeath_iff_spec:
  assumes "chain_ok s"
  shows "(\<not> cellIsInsideBoard (add (tgtCellPos (segmentStore s ! snakeHeadSegment s))
                                     (fst (updateDirection (movementProcessor s)))) \<or>
          cellIsInsidePlayer s (add (tgtCellPos (segmentStore s ! snakeHeadSegment s))
                                     (fst (updateDirection (movementProcessor s)))))
         \<longleftrightarrow> spec_deathCondition s"
proof -
  from assms have hd: "hd (snakeSegments s) = snakeHeadSegment s" and ne: "snakeSegments s \<noteq> []"
    by (simp_all add: chain_ok_def)
  let ?c = "candidateCell s"
  have c: "add (tgtCellPos (segmentStore s ! snakeHeadSegment s))
             (fst (updateDirection (movementProcessor s))) = ?c"
    by (simp add: candidateCell_def hd)
  have head: "\<not> equals (tgtCellPos (segmentStore s ! (snakeSegments s ! 0))) ?c"
    using ne not_equals_add_updateDirection [of "tgtCellPos (segmentStore s ! hd (snakeSegments s))" "movementProcessor s"]
    by (simp add: candidateCell_def hd_conv_nth)
  have "cellIsInsidePlayer s ?c \<longleftrightarrow>
        list_ex (\<lambda>a. equals (tgtCellPos (segmentStore s ! a)) ?c) (butlast (snakeSegments s))"
  proof -
    have "(\<exists>i. 1 \<le> i \<and> i < length (snakeSegments s) - 1 \<and>
               equals (tgtCellPos (segmentStore s ! (snakeSegments s ! i))) ?c) \<longleftrightarrow>
          (\<exists>i. i < length (snakeSegments s) - 1 \<and>
               equals (tgtCellPos (segmentStore s ! (snakeSegments s ! i))) ?c)"
      (is "?L \<longleftrightarrow> ?R")
    proof
      assume ?L then show ?R by blast
    next
      assume ?R
      then obtain i where i: "i < length (snakeSegments s) - 1"
        "equals (tgtCellPos (segmentStore s ! (snakeSegments s ! i))) ?c" by blast
      with head have "i \<noteq> 0" by (cases i) auto
      with i show ?L by (intro exI [of _ i]) simp
    qed
    then show ?thesis
      by (simp add: cellIsInsidePlayer_index list_ex_butlast_index)
  qed
  then show ?thesis by (simp add: c spec_deathCondition_def)
qed

subsection \<open>Moving the chain\<close>

lemma chain_okD:
  assumes "chain_ok s"
  shows "snakeSegments s \<noteq> []"
    and "hd (snakeSegments s) = snakeHeadSegment s"
    and "distinct (snakeSegments s)"
    and "\<forall>a\<in>set (snakeSegments s). a < length (segmentStore s)"
    and "isControllable (segmentStore s ! snakeHeadSegment s)"
    and "\<forall>a\<in>set (tl (snakeSegments s)). \<not> isControllable (segmentStore s ! a)"
    and "linked (segmentStore s) None (snakeSegments s)"
  using assms by (simp_all add: chain_ok_def list_all_iff)

lemma chain_ok_head:
  assumes "chain_ok s"
  shows "snakeHeadSegment s \<in> set (snakeSegments s)"
    and "snakeHeadSegment s < length (segmentStore s)"
    and "snakeSegments s ! 0 = snakeHeadSegment s"
proof -
  from chain_okD(1,2) [OF assms] show "snakeHeadSegment s \<in> set (snakeSegments s)"
    using hd_in_set by metis
  with chain_okD(4) [OF assms] show "snakeHeadSegment s < length (segmentStore s)"
    by blast
  from chain_okD(1,2) [OF assms] show "snakeSegments s ! 0 = snakeHeadSegment s"
    by (simp add: hd_conv_nth)
qed

lemma moveToCell_fields:
  "isControllable (moveToCell c inst seg) = isControllable seg"
  "nextSegment (moveToCell c inst seg) = nextSegment seg"
  "drawCellPos (moveToCell c False seg) = drawCellPos seg"
  by (simp_all add: moveToCell_def Let_def)

lemma moveToCell_tgt:
  "isControllable seg \<Longrightarrow> tgtCellPos (moveToCell c inst seg) = c"
  by (simp add: moveToCell_def Let_def)

lemma length_segmentStore_moveInDirection:
  "length (segmentStore (moveInDirection dir s)) = length (segmentStore s)"
  by (simp add: moveInDirection_def Let_def length_fold_follow)

lemma moveInDirection_nextSegment:
  "nextSegment (segmentStore (moveInDirection dir s) ! b) = nextSegment (segmentStore s ! b)"
proof (cases "snakeHeadSegment s < length (segmentStore s)")
  case True
  then show ?thesis
    by (simp add: moveInDirection_def Let_def nth_list_update length_fold_follow
        moveToCell_fields fold_follow_nextSegment)
next
  case False
  then have "length (segmentStore s) \<le> snakeHeadSegment s" by simp
  then show ?thesis
    by (simp add: moveInDirection_def Let_def list_update_beyond length_fold_follow
        fold_follow_nextSegment)
qed

lemma moveInDirection_isControllable:
  "isControllable (segmentStore (moveInDirection dir s) ! b) = isControllable (segmentStore s ! b)"
proof (cases "snakeHeadSegment s < length (segmentStore s)")
  case True
  then show ?thesis
    by (simp add: moveInDirection_def Let_def nth_list_update length_fold_follow
        moveToCell_fields fold_follow_isControllable)
next
  case False
  then have "length (segmentStore s) \<le> snakeHeadSegment s" by simp
  then show ?thesis
    by (simp add: moveInDirection_def Let_def list_update_beyond length_fold_follow
        fold_follow_isControllable)
qed

lemma moveInDirection_drawCellPos:
  "drawCellPos (segmentStore (moveInDirection dir s) ! b) = drawCellPos (segmentStore s ! b)"
proof (cases "snakeHeadSegment s < length (segmentStore s)")
  case True
  then show ?thesis
    by (simp add: moveInDirection_def Let_def nth_list_update length_fold_follow
        moveToCell_fields fold_follow_drawCellPos)
next
  case False
  then have "length (segmentStore s) \<le> snakeHeadSegment s" by simp
  then show ?thesis
    by (simp add: moveInDirection_def Let_def list_update_beyond length_fold_follow
        fold_follow_drawCellPos)
qed

lemma moveInDirection_outside:
  assumes "chain_ok s" and "b \<notin> set (snakeSegments s)"
  shows "segmentStore (moveInDirection dir s) ! b = segmentStore s ! b"
proof -
  from assms chain_ok_head(1) [OF assms(1)] have "b \<noteq> snakeHeadSegment s" by auto
  with assms(2) show ?thesis
    by (simp add: moveInDirection_def Let_def fold_follow_other)
qed

lemma moveInDirection_head:
  assumes "chain_ok s"
  shows "tgtCellPos (segmentStore (moveInDirection dir s) ! snakeHeadSegment s) =
         add (tgtCellPos (segmentStore s ! snakeHeadSegment s)) dir"
proof -
  let ?st1 = "fold followSegment (rev (snakeSegments s)) (segmentStore s)"
  let ?h = "snakeHeadSegment s"
  have len: "?h < length ?st1"
    using chain_ok_head(2) [OF assms] by (simp add: length_fold_follow)
  have ctl: "isControllable (?st1 ! ?h)"
    using chain_okD(5) [OF assms] by (simp add: fold_follow_isControllable)
  have "tgtCellPos (?st1 ! (snakeSegments s ! 0)) = tgtCellPos (segmentStore s ! (snakeSegments s ! (0 - 1)))"
    using chain_okD(1,3,4,7) [OF assms] by (intro fold_follow_chain) simp_all
  then have tgt: "tgtCellPos (?st1 ! ?h) = tgtCellPos (segmentStore s ! ?h)"
    by (simp add: chain_ok_head(3) [OF assms])
  show ?thesis
    using len ctl tgt by (simp add: moveInDirection_def Let_def moveToCell_tgt)
qed

lemma moveInDirection_body:
  assumes "chain_ok s" and "0 < i" and "i < length (snakeSegments s)"
  shows "tgtCellPos (segmentStore (moveInDirection dir s) ! (snakeSegments s ! i)) =
         tgtCellPos (segmentStore s ! (snakeSegments s ! (i - 1)))"
proof -
  let ?st1 = "fold followSegment (rev (snakeSegments s)) (segmentStore s)"
  have "0 < length (snakeSegments s)" using assms(3) by (cases "snakeSegments s") simp_all
  then have "snakeSegments s ! i \<noteq> snakeSegments s ! 0"
    using nth_eq_iff_index_eq [OF chain_okD(3) [OF assms(1)] assms(3), of 0] assms(2)
    by simp
  then have ne: "snakeSegments s ! i \<noteq> snakeHeadSegment s"
    by (simp add: chain_ok_head(3) [OF assms(1)])
  have "tgtCellPos (?st1 ! (snakeSegments s ! i)) =
        tgtCellPos (segmentStore s ! (snakeSegments s ! (i - 1)))"
    using chain_okD(3,4,7) [OF assms(1)] assms(3) by (intro fold_follow_chain) simp_all
  with ne show ?thesis
    by (simp add: moveInDirection_def Let_def)
qed

lemma chain_ok_moveInDirection:
  assumes "chain_ok s"
  shows "chain_ok (moveInDirection dir s)"
proof -
  have seg: "snakeSegments (moveInDirection dir s) = snakeSegments s"
    by (rule snakeSegments_moveInDirection)
  have hd: "snakeHeadSegment (moveInDirection dir s) = snakeHeadSegment s"
    by (simp add: moveInDirection_def Let_def)
  have "linked (segmentStore (moveInDirection dir s)) None (snakeSegments s) =
        linked (segmentStore s) None (snakeSegments s)"
    by (rule linked_cong) (rule moveInDirection_nextSegment)
  with chain_okD [OF assms] show ?thesis
    by (simp add: chain_ok_def seg hd length_segmentStore_moveInDirection
        moveInDirection_isControllable list_all_iff)
qed

lemma chain_ok_cong:
  "segmentStore s' = segmentStore s \<Longrightarrow> snakeSegments s' = snakeSegments s \<Longrightarrow>
   snakeHeadSegment s' = snakeHeadSegment s \<Longrightarrow> chain_ok s' = chain_ok s"
  by (simp add: chain_ok_def)

lemma chain_ok_update:
  assumes "chain_ok s"
  shows "chain_ok (update s)"
proof -
  have "chain_ok (update s) =
        chain_ok (moveInDirection (fst (updateDirection (movementProcessor s))) s)"
    by (rule chain_ok_cong)
       (simp_all add: segmentStore_update snakeSegments_update snakeHeadSegment_update
          moveInDirection_def Let_def)
  with chain_ok_moveInDirection [OF assms] show ?thesis by simp
qed

lemma chain_ok_onKeyDown: "chain_ok (onKeyDown e s) = chain_ok s"
  by (rule chain_ok_cong) (simp_all add: onKeyDown_def)

subsection \<open>Growing and resetting the chain\<close>

lemma chain_ok_head_ok:
  assumes "chain_ok s"
  shows "head_ok s"
proof -
  have "nextSegment (segmentStore s ! (snakeSegments s ! 0)) = None"
    using linked_nth [OF chain_okD(7) [OF assms], of 0] chain_okD(1) [OF assms] by simp
  then show ?thesis
    using chain_ok_head(2,3) [OF assms] chain_okD(5) [OF assms] by (simp add: head_ok_def)
qed

lemma snakeSegments_growSegment:
  "snakeSegments (growSegment s) = snakeSegments s @ [length (segmentStore s)]"
  by (simp add: growSegment_def Let_def)

lemma segmentStore_growSegment:
  "segmentStore (growSegment s) =
     segmentStore s @ [newSnakeSegment (segmentStore s)
        (if snakeSegments s = [] then None else Some (last (snakeSegments s))) False]"
  by (simp add: growSegment_def Let_def)

lemma length_segmentStore_growSegment:
  "length (segmentStore (growSegment s)) = Suc (length (segmentStore s))"
  by (simp add: segmentStore_growSegment)

lemma snakeHeadSegment_growSegment: "snakeHeadSegment (growSegment s) = snakeHeadSegment s"
  by (simp add: growSegment_def Let_def)

lemma growSegment_old:
  "b < length (segmentStore s) \<Longrightarrow> segmentStore (growSegment s) ! b = segmentStore s ! b"
  by (simp add: segmentStore_growSegment nth_append)

lemma growSegment_new:
  "segmentStore (growSegment s) ! length (segmentStore s) =
     newSnakeSegment (segmentStore s)
        (if snakeSegments s = [] then None else Some (last (snakeSegments s))) False"
  by (simp add: segmentStore_growSegment)

lemma chain_ok_growSegment:
  assumes "chain_ok s"
  shows "chain_ok (growSegment s)"
proof -
  let ?n = "length (segmentStore s)"
  note ok = chain_okD [OF assms]
  have fresh: "?n \<notin> set (snakeSegments s)" using ok(4) by auto
  have old: "\<And>b. b \<in> set (snakeSegments s) \<Longrightarrow> segmentStore (growSegment s) ! b = segmentStore s ! b"
    using ok(4) by (simp add: growSegment_old)
  have "linked (segmentStore (growSegment s)) None (snakeSegments s) =
        linked (segmentStore s) None (snakeSegments s)"
    by (rule linked_cong) (simp add: old)
  with ok(1,7) have lk: "linked (segmentStore (growSegment s)) None (snakeSegments s @ [?n])"
    by (simp add: linked_snoc growSegment_new newSnakeSegment_def Let_def)
  have hd: "isControllable (segmentStore (growSegment s) ! snakeHeadSegment s)"
    using ok(5) chain_ok_head(2) [OF assms] by (simp add: growSegment_old)
  have tl: "\<forall>a\<in>set (tl (snakeSegments s @ [?n])). \<not> isControllable (segmentStore (growSegment s) ! a)"
  proof
    fix a assume "a \<in> set (tl (snakeSegments s @ [?n]))"
    with ok(1) have "a \<in> set (tl (snakeSegments s)) \<or> a = ?n" by auto
    then show "\<not> isControllable (segmentStore (growSegment s) ! a)"
    proof
      assume a: "a \<in> set (tl (snakeSegments s))"
      then have "a \<in> set (snakeSegments s)" by (rule list.set_sel(2) [OF ok(1)])
      with a ok(6) show ?thesis by (simp add: old)
    next
      assume "a = ?n"
      then show ?thesis by (simp add: growSegment_new newSnakeSegment_def Let_def)
    qed
  qed
  have bound: "\<forall>a\<in>set (snakeSegments s @ [?n]). a < length (segmentStore (growSegment s))"
    using ok(4) by (auto simp: length_segmentStore_growSegment)
  show ?thesis
    using ok(1,2,3) fresh lk hd tl bound
    by (simp add: chain_ok_def snakeSegments_growSegment snakeHeadSegment_growSegment
        list_all_iff)
qed

lemma all_at_growSegment:
  assumes "chain_ok s" and "all_at c s"
  shows "all_at c (growSegment s)"
proof -
  note ok = chain_okD [OF assms(1)]
  from ok(1) have "last (snakeSegments s) \<in> set (snakeSegments s)" by simp
  with assms(2) have "tgtCellPos (segmentStore s ! last (snakeSegments s)) = c"
    by (simp add: all_at_def list_all_iff)
  with ok(1) have new: "tgtCellPos (segmentStore (growSegment s) ! length (segmentStore s)) = c"
    "drawCellPos (segmentStore (growSegment s) ! length (segmentStore s)) = c"
    by (simp_all add: growSegment_new newSnakeSegment_def Let_def)
  have "\<And>a. a \<in> set (snakeSegments s) \<Longrightarrow> segmentStore (growSegment s) ! a = segmentStore s ! a"
    using ok(4) by (simp add: growSegment_old)
  with assms(2) new show ?thesis
    by (simp add: all_at_def list_all_iff snakeSegments_growSegment)
qed

lemma length_snakeSegments_growSegment:
  "length (snakeSegments (growSegment s)) = Suc (length (snakeSegments s))"
  by (simp add: snakeSegments_growSegment)

lemma resetForStart_unfold:
  "resetForStart s =
     growSegment (growSegment (growSegment (growSegment (growSegment
       (growSegment (growSegment (growSegment (growSegment (growSegment (reset_head s))))))))))"
  by (simp add: resetForStart_def reset_head_def Let_def)

lemma reset_head_ok:
  assumes "head_ok s"
  shows "chain_ok (reset_head s)" and "all_at getCenterCell (reset_head s)"
    and "length (snakeSegments (reset_head s)) = 1"
    and "snakeHeadSegment (reset_head s) = snakeHeadSegment s"
  using assms
  by (simp_all add: head_ok_def reset_head_def chain_ok_def all_at_def moveToCell_def Let_def)

lemma resetForStart_props:
  assumes "head_ok s"
  shows "chain_ok (resetForStart s)"
    and "all_at getCenterCell (resetForStart s)"
    and "length (snakeSegments (resetForStart s)) = 11"
    and "snakeHeadSegment (resetForStart s) = snakeHeadSegment s"
proof -
  note h = reset_head_ok [OF assms]
  show ok: "chain_ok (resetForStart s)"
    unfolding resetForStart_unfold by (intro chain_ok_growSegment h(1))
  show "all_at getCenterCell (resetForStart s)"
    unfolding resetForStart_unfold by (intro all_at_growSegment chain_ok_growSegment h(1) h(2))
  show "length (snakeSegments (resetForStart s)) = 11"
    unfolding resetForStart_unfold by (simp add: length_snakeSegments_growSegment h(3))
  show "snakeHeadSegment (resetForStart s) = snakeHeadSegment s"
    unfolding resetForStart_unfold by (simp add: snakeHeadSegment_growSegment h(4))
qed

lemma chain_ok_newSnake: "chain_ok (newSnake dflt)"
  unfolding newSnake_def
  by (rule resetForStart_props(1)) (simp add: head_ok_def newSnakeSegment_def)

lemma fold_update_distinct:
  "distinct as \<Longrightarrow> \<forall>a\<in>set as. a < length st \<Longrightarrow>
   fold (\<lambda>a st. st[a := f (st ! a)]) as st ! b = (if b \<in> set as then f (st ! b) else st ! b)"
proof (induction as arbitrary: st)
  case Nil
  then show ?case by simp
next
  case (Cons a as)
  then show ?case by (auto simp: nth_list_update)
qed

lemma length_fold_update:
  "length (fold (\<lambda>a st. st[a := f (st ! a)]) as st) = length st"
  by (induction as arbitrary: st) simp_all

subsection \<open>Evaluating the example states\<close>

lemmas eval_defs = update_def updateDirection_def cellIsInsideBoard_def cellIsInsidePlayer_def
  add_def equals_def moveInDirection_def followSegment_def moveToCell_def boardNumCellsWide_def
  die_def snakeOf_def chainOf_def getCenterCell_def

lemma newSnake_eq:
  "newSnake d = snakeOf d
     [\<lparr>x = 4, y = 4\<rparr>, \<lparr>x = 4, y = 4\<rparr>, \<lparr>x = 4, y = 4\<rparr>,
      \<lparr>x = 4, y = 4\<rparr>, \<lparr>x = 4, y = 4\<rparr>,
      \<lparr>x = 4, y = 4\<rparr>, \<lparr>x = 4, y = 4\<rparr>,
      \<lparr>x = 4, y = 4\<rparr>, \<lparr>x = 4, y = 4\<rparr>,
      \<lparr>x = 4, y = 4\<rparr>, \<lparr>x = 4, y = 4\<rparr>] []"
  by code_simp

lemma update_newSnake_Up:
  "update (newSnake Up) = snakeOf Up
     [\<lparr>x = 4, y = 3\<rparr>, \<lparr>x = 4, y = 4\<rparr>, \<lparr>x = 4, y = 4\<rparr>,
      \<lparr>x = 4, y = 4\<rparr>, \<lparr>x = 4, y = 4\<rparr>,
      \<lparr>x = 4, y = 4\<rparr>, \<lparr>x = 4, y = 4\<rparr>,
      \<lparr>x = 4, y = 4\<rparr>, \<lparr>x = 4, y = 4\<rparr>,
      \<lparr>x = 4, y = 4\<rparr>, \<lparr>x = 4, y = 4\<rparr>] []"
  by (simp add: newSnake_eq eval_defs)

lemma snakeAtLeftEdge_eq:
  "snakeAtLeftEdge = snakeOf Left
     [\<lparr>x = 0, y = 4\<rparr>, \<lparr>x = 1, y = 4\<rparr>, \<lparr>x = 2, y = 4\<rparr>,
      \<lparr>x = 3, y = 4\<rparr>, \<lparr>x = 4, y = 4\<rparr>,
      \<lparr>x = 4, y = 4\<rparr>, \<lparr>x = 4, y = 4\<rparr>,
      \<lparr>x = 4, y = 4\<rparr>, \<lparr>x = 4, y = 4\<rparr>,
      \<lparr>x = 4, y = 4\<rparr>, \<lparr>x = 4, y = 4\<rparr>] []"
  by (simp add: snakeAtLeftEdge_def newSnake_eq eval_defs)

lemma update_snakeAtLeftEdge:
  "update snakeAtLeftEdge = snakeOf Left
     [\<lparr>x = - 1, y = 4\<rparr>, \<lparr>x = 0, y = 4\<rparr>, \<lparr>x = 1, y = 4\<rparr>,
      \<lparr>x = 2, y = 4\<rparr>, \<lparr>x = 3, y = 4\<rparr>,
      \<lparr>x = 4, y = 4\<rparr>, \<lparr>x = 4, y = 4\<rparr>,
      \<lparr>x = 4, y = 4\<rparr>, \<lparr>x = 4, y = 4\<rparr>,
      \<lparr>x = 4, y = 4\<rparr>, \<lparr>x = 4, y = 4\<rparr>] [True]"
  by (simp add: snakeAtLeftEdge_eq eval_defs)

subsection \<open>One tick of the snake and of the controller\<close>

lemma update_head_tgt:
  assumes "chain_ok s"
  shows "tgtCellPos (segmentStore (update s) ! snakeHeadSegment s) = candidateCell s"
  using moveInDirection_head [OF assms] chain_okD(2) [OF assms]
  by (simp add: segmentStore_update candidateCell_def)

lemma update_body_tgt:
  assumes "chain_ok s" and "0 < i" and "i < length (snakeSegments s)"
  shows "tgtCellPos (segmentStore (update s) ! (snakeSegments s ! i)) =
         tgtCellPos (segmentStore s ! (snakeSegments s ! (i - 1)))"
  using moveInDirection_body [OF assms] by (simp add: segmentStore_update)

lemma deathSubject_update_spec:
  assumes "chain_ok s"
  shows "deathSubject (update s) =
         (if spec_deathCondition s then deathSubject s @ [True] else deathSubject s)"
  using codeDeath_iff_spec [OF assms] by (simp add: deathSubject_update)


subsection \<open>Drawing and reachable states\<close>

lemma moveDrawPosTowardsTgtPos_fields:
  "isControllable (moveDrawPosTowardsTgtPos t seg) = isControllable seg"
  "nextSegment (moveDrawPosTowardsTgtPos t seg) = nextSegment seg"
  "tgtCellPos (moveDrawPosTowardsTgtPos t seg) = tgtCellPos seg"
  by (simp_all add: moveDrawPosTowardsTgtPos_def Let_def)

lemma chain_ok_draw:
  assumes "chain_ok s"
  shows "chain_ok (draw timeDelta s)"
proof -
  note ok = chain_okD [OF assms]
  let ?f = "moveDrawPosTowardsTgtPos (times_number timeDelta 20)"
  have nth: "\<And>b. segmentStore (draw timeDelta s) ! b =
      (if b \<in> set (snakeSegments s) then ?f (segmentStore s ! b) else segmentStore s ! b)"
    using ok(3,4) by (simp add: draw_def fold_update_distinct)
  have len: "length (segmentStore (draw timeDelta s)) = length (segmentStore s)"
    by (simp add: draw_def length_fold_update)
  have "linked (segmentStore (draw timeDelta s)) None (snakeSegments s) =
        linked (segmentStore s) None (snakeSegments s)"
    by (rule linked_cong) (simp add: nth moveDrawPosTowardsTgtPos_fields)
  moreover have "snakeSegments (draw timeDelta s) = snakeSegments s"
    "snakeHeadSegment (draw timeDelta s) = snakeHeadSegment s"
    by (simp_all add: draw_def)
  ultimately show ?thesis
    using ok by (simp add: chain_ok_def len nth moveDrawPosTowardsTgtPos_fields list_all_iff)
qed

lemma reachable_chain_ok: "reachable s \<Longrightarrow> chain_ok s"
proof (induction rule: reachable.induct)
  case (constructed dflt)
  show ?case by (rule chain_ok_newSnake)
next
  case (key s e)
  then show ?case by (simp add: chain_ok_onKeyDown)
next
  case (tick s)
  then show ?case by (simp add: chain_ok_update)
next
  case (frame s timeDelta)
  then show ?case by (simp add: chain_ok_draw)
next
  case (grown s)
  then show ?case by (simp add: chain_ok_growSegment)
next
  case (reset s)
  then show ?case by (simp add: resetForStart_props(1) chain_ok_head_ok)
qed





subsection \<open>The controller\<close>














subsection \<open>The movement processor\<close>

lemma dirVector_negate: "dirVector d = negate (dirVector c) \<longleftrightarrow> d = opposite c"
  by (cases d; cases c) (simp_all add: negate_def)

lemma queue_ok_new: "queue_ok (newPlayerMovementProcessor dflt)"
  by (simp add: queue_ok_def newPlayerMovementProcessor_def)

lemma queue_ok_onKeyDown: "queue_ok mp \<Longrightarrow> queue_ok (movement_onKeyDown e mp)"
  by (simp add: queue_ok_def movement_onKeyDown_def split: option.split)

lemma queue_ok_updateDirection: "queue_ok (snd (updateDirection mp))"
  by (simp add: queue_ok_def updateDirection_def split: option.split)

lemma opposite_neq: "opposite d \<noteq> d"
  by (cases d) simp_all

lemma updateDirection_not_opposite:
  "queue_ok mp \<Longrightarrow> fst (updateDirection mp) \<noteq> negate (dirVector (curDirection mp))"
  by (auto simp: queue_ok_def updateDirection_def dirVector_negate opposite_neq
      opposite_neq [symmetric] split: option.split)

lemma tickDirections_not_opposite:
  "queue_ok mp \<Longrightarrow> pv \<in> set (tickDirections mp inputs) \<Longrightarrow> snd pv \<noteq> negate (fst pv)"
proof (induction mp inputs rule: tickDirections.induct)
  case (1 mp)
  then show ?case by simp
next
  case (2 mp e inputs)
  then show ?case by (simp add: queue_ok_onKeyDown)
next
  case (3 mp inputs)
  then show ?case
    by (auto simp: queue_ok_updateDirection updateDirection_not_opposite)
qed

section \<open>Claims\<close>

text \<open>
  C10: a segment built non-controllable, as every segment but the head is, keeps its target
  cell and its draw position under \<^verbatim>\<open>moveToCell\<close>, whatever the cell and the instant
  flag; the segment \<^verbatim>\<open>growSegment\<close> appends is non-controllable; in a well-formed chain
  \<^verbatim>\<open>moveToCell\<close> changes no segment after the first, and sets the head's target cell.
\<close>

theorem moveToCell_only_head:
  "(\<not> isControllable seg \<longrightarrow>
      tgtCellPos (moveToCell cellPos instant seg) = tgtCellPos seg \<and>
      drawCellPos (moveToCell cellPos instant seg) = drawCellPos seg \<and>
      moveToCell cellPos instant seg = seg) \<and>
   (isControllable seg \<longrightarrow> tgtCellPos (moveToCell cellPos instant seg) = cellPos) \<and>
   \<not> isControllable (segmentStore (growSegment s) ! last (snakeSegments (growSegment s))) \<and>
   (chain_ok s \<and> a \<in> set (tl (snakeSegments s)) \<longrightarrow>
      moveToCell cellPos instant (segmentStore s ! a) = segmentStore s ! a) \<and>
   (chain_ok s \<longrightarrow>
      tgtCellPos (moveToCell cellPos instant (segmentStore s ! hd (snakeSegments s))) = cellPos)"
proof -
  have new: "\<not> isControllable (segmentStore (growSegment s) ! last (snakeSegments (growSegment s)))"
    by (simp add: snakeSegments_growSegment growSegment_new newSnakeSegment_def Let_def)
  have body: "moveToCell cellPos instant (segmentStore s ! a) = segmentStore s ! a"
    if "chain_ok s" "a \<in> set (tl (snakeSegments s))"
    using chain_okD(6) [OF that(1)] that(2) by (simp add: moveToCell_def)
  have head: "tgtCellPos (moveToCell cellPos instant (segmentStore s ! hd (snakeSegments s))) = cellPos"
    if "chain_ok s"
    using chain_okD(2,5) [OF that] by (simp add: moveToCell_tgt)
  show ?thesis
    using new body head by (simp add: moveToCell_def Let_def)
qed

theorem moveToCell_only_head_witness:
  "\<not> isControllable segmentLeftOfTarget \<and>
   moveToCell \<lparr>x = 5, y = 5\<rparr> True segmentLeftOfTarget = segmentLeftOfTarget \<and>
   chain_ok (newSnake Up) \<and> 3 \<in> set (tl (snakeSegments (newSnake Up))) \<and>
   moveToCell \<lparr>x = 5, y = 5\<rparr> False (segmentStore (newSnake Up) ! 3) = segmentStore (newSnake Up) ! 3 \<and>
   hd (snakeSegments (newSnake Up)) = 0 \<and>
   tgtCellPos (moveToCell \<lparr>x = 5, y = 5\<rparr> False (segmentStore (newSnake Up) ! 0)) = \<lparr>x = 5, y = 5\<rparr>"
proof -
  have a: "\<not> isControllable segmentLeftOfTarget" by (simp add: segmentLeftOfTarget_def)
  have b: "chain_ok (newSnake Up)" by (rule chain_ok_newSnake)
  have c: "3 \<in> set (tl (snakeSegments (newSnake Up)))" by (simp add: newSnake_eq snakeOf_def)
  have d: "hd (snakeSegments (newSnake Up)) = 0" by (simp add: newSnake_eq snakeOf_def)
  from moveToCell_only_head [of segmentLeftOfTarget "\<lparr>x = 5, y = 5\<rparr>" True "newSnake Up" 3]
  have 1: "moveToCell \<lparr>x = 5, y = 5\<rparr> True segmentLeftOfTarget = segmentLeftOfTarget"
    using a by blast
  from moveToCell_only_head [of segmentLeftOfTarget "\<lparr>x = 5, y = 5\<rparr>" False "newSnake Up" 3]
  have 2: "moveToCell \<lparr>x = 5, y = 5\<rparr> False (segmentStore (newSnake Up) ! 3) = segmentStore (newSnake Up) ! 3"
    and 3: "tgtCellPos (moveToCell \<lparr>x = 5, y = 5\<rparr> False (segmentStore (newSnake Up) ! hd (snakeSegments (newSnake Up)))) = \<lparr>x = 5, y = 5\<rparr>"
    using b c by blast+
  show ?thesis using a b c 1 2 3 unfolding d by simp
qed

text \<open>
  C7: growing a non-empty chain makes it exactly one segment longer; the old segments stay
  in place and the new segment is the last one, the tail; its \<^verbatim>\<open>nextSegment\<close> is the
  former tail, and its target cell and draw position are the former tail's target cell at
  the moment of growth.
\<close>

theorem growSegment_appends_tail:
  assumes "snakeSegments s \<noteq> []"
  shows "length (snakeSegments (growSegment s)) = length (snakeSegments s) + 1 \<and>
         butlast (snakeSegments (growSegment s)) = snakeSegments s \<and>
         nextSegment (segmentStore (growSegment s) ! last (snakeSegments (growSegment s))) =
           Some (last (snakeSegments s)) \<and>
         tgtCellPos (segmentStore (growSegment s) ! last (snakeSegments (growSegment s))) =
           tgtCellPos (segmentStore s ! last (snakeSegments s)) \<and>
         drawCellPos (segmentStore (growSegment s) ! last (snakeSegments (growSegment s))) =
           tgtCellPos (segmentStore s ! last (snakeSegments s))"
  using assms
  by (simp add: snakeSegments_growSegment growSegment_new newSnakeSegment_def Let_def)

theorem growSegment_appends_tail_witness:
  "snakeSegments snakeAtLeftEdge \<noteq> [] \<and>
   length (snakeSegments snakeAtLeftEdge) = 11 \<and>
   length (snakeSegments (growSegment snakeAtLeftEdge)) = 12 \<and>
   last (snakeSegments snakeAtLeftEdge) = 10 \<and>
   last (snakeSegments (growSegment snakeAtLeftEdge)) = 11 \<and>
   nextSegment (segmentStore (growSegment snakeAtLeftEdge) ! 11) = Some 10 \<and>
   tgtCellPos (segmentStore snakeAtLeftEdge ! 10) = \<lparr>x = 4, y = 4\<rparr> \<and>
   tgtCellPos (segmentStore (growSegment snakeAtLeftEdge) ! 11) = \<lparr>x = 4, y = 4\<rparr>"
proof -
  have a: "snakeSegments snakeAtLeftEdge \<noteq> []"
    by (simp add: snakeAtLeftEdge_eq snakeOf_def)
  have b: "length (snakeSegments snakeAtLeftEdge) = 11"
    by (simp add: snakeAtLeftEdge_eq snakeOf_def)
  have c: "last (snakeSegments snakeAtLeftEdge) = 10"
    by (simp add: snakeAtLeftEdge_eq snakeOf_def)
  have d: "last (snakeSegments (growSegment snakeAtLeftEdge)) = 11"
    by (simp add: snakeSegments_growSegment snakeAtLeftEdge_eq snakeOf_def chainOf_def)
  have e: "tgtCellPos (segmentStore snakeAtLeftEdge ! 10) = \<lparr>x = 4, y = 4\<rparr>"
    by (simp add: snakeAtLeftEdge_eq snakeOf_def chainOf_def)
  show ?thesis
    using growSegment_appends_tail [OF a] a b c d e by simp
qed

text \<open>
  C3: on every tick of a well-formed chain, the update emits the death signal if and only if
  the candidate head cell is outside the board or is the target cell of some segment other
  than the current tail; otherwise it emits nothing.
\<close>

theorem death_signalled_iff:
  assumes "chain_ok s"
  shows "(deathSubject (update s) = deathSubject s @ [True] \<longleftrightarrow> spec_deathCondition s) \<and>
         (deathSubject (update s) = deathSubject s \<longleftrightarrow> \<not> spec_deathCondition s)"
proof (cases "spec_deathCondition s")
  case True
  then have "deathSubject (update s) = deathSubject s @ [True]"
    by (simp add: deathSubject_update_spec [OF assms])
  with True show ?thesis by simp
next
  case False
  then have "deathSubject (update s) = deathSubject s"
    by (simp add: deathSubject_update_spec [OF assms])
  with False show ?thesis by simp
qed

theorem death_signalled_iff_witness:
  "chain_ok snakeAtLeftEdge \<and> candidateCell snakeAtLeftEdge = \<lparr>x = - 1, y = 4\<rparr> \<and>
   spec_deathCondition snakeAtLeftEdge \<and>
   deathSubject snakeAtLeftEdge = [] \<and> deathSubject (update snakeAtLeftEdge) = [True] \<and>
   chain_ok (newSnake Up) \<and> candidateCell (newSnake Up) = \<lparr>x = 4, y = 3\<rparr> \<and>
   \<not> spec_deathCondition (newSnake Up) \<and>
   deathSubject (newSnake Up) = [] \<and> deathSubject (update (newSnake Up)) = []"
proof -
  have a: "chain_ok snakeAtLeftEdge"
    by (simp add: snakeAtLeftEdge_def chain_ok_update chain_ok_newSnake)
  have b: "candidateCell snakeAtLeftEdge = \<lparr>x = - 1, y = 4\<rparr>"
    by (simp add: candidateCell_def snakeAtLeftEdge_eq eval_defs)
  have c: "deathSubject snakeAtLeftEdge = []"
    by (simp add: snakeAtLeftEdge_eq snakeOf_def)
  have d: "deathSubject (update snakeAtLeftEdge) = [True]"
    by (simp add: update_snakeAtLeftEdge snakeOf_def)
  have e: "chain_ok (newSnake Up)" by (rule chain_ok_newSnake)
  have f: "candidateCell (newSnake Up) = \<lparr>x = 4, y = 3\<rparr>"
    by (simp add: candidateCell_def newSnake_eq eval_defs)
  have g: "deathSubject (newSnake Up) = []"
    by (simp add: newSnake_eq snakeOf_def)
  have h: "deathSubject (update (newSnake Up)) = []"
    by (simp add: update_newSnake_Up snakeOf_def)
  from death_signalled_iff [OF a] c d have 1: "spec_deathCondition snakeAtLeftEdge" by simp
  from death_signalled_iff [OF e] g h have 2: "\<not> spec_deathCondition (newSnake Up)" by simp
  show ?thesis using a b c d e f g h 1 2 by simp
qed

text \<open>
  C2: on every tick of a well-formed chain on which the candidate head cell is inside the
  board and is not the target cell of a segment other than the tail, the chain keeps its
  length and its segments, every segment after the head takes the target cell that the
  segment before it held before the tick, the head takes the candidate cell, and no death
  is signalled.
\<close>

theorem update_moves_chain:
  assumes "chain_ok s" and "\<not> spec_deathCondition s"
  shows "length (snakeSegments (update s)) = length (snakeSegments s) \<and>
         snakeSegments (update s) = snakeSegments s \<and>
         (\<forall>i. 0 < i \<and> i < length (snakeSegments s) \<longrightarrow>
            tgtCellPos (segmentStore (update s) ! (snakeSegments s ! i)) =
            tgtCellPos (segmentStore s ! (snakeSegments s ! (i - 1)))) \<and>
         tgtCellPos (segmentStore (update s) ! hd (snakeSegments s)) = candidateCell s \<and>
         deathSubject (update s) = deathSubject s"
proof -
  have segs: "snakeSegments (update s) = snakeSegments s"
    by (rule snakeSegments_update)
  have body: "tgtCellPos (segmentStore (update s) ! (snakeSegments s ! i)) =
              tgtCellPos (segmentStore s ! (snakeSegments s ! (i - 1)))"
    if "0 < i" "i < length (snakeSegments s)" for i
    using that by (rule update_body_tgt [OF assms(1)])
  have head: "tgtCellPos (segmentStore (update s) ! hd (snakeSegments s)) = candidateCell s"
    using update_head_tgt [OF assms(1)] chain_okD(2) [OF assms(1)] by simp
  have quiet: "deathSubject (update s) = deathSubject s"
    using assms(2) by (simp add: deathSubject_update_spec [OF assms(1)])
  from segs body head quiet show ?thesis by simp
qed

theorem update_moves_chain_witness:
  "chain_ok (update (newSnake Up)) \<and> \<not> spec_deathCondition (update (newSnake Up)) \<and>
   snakeSegments (update (newSnake Up)) = [0, 1, 2, 3, 4, 5, 6, 7, 8, 9, 10] \<and>
   snakeSegments (update (update (newSnake Up))) = [0, 1, 2, 3, 4, 5, 6, 7, 8, 9, 10] \<and>
   tgtCellPos (segmentStore (update (newSnake Up)) ! 0) = \<lparr>x = 4, y = 3\<rparr> \<and>
   tgtCellPos (segmentStore (update (newSnake Up)) ! 1) = \<lparr>x = 4, y = 4\<rparr> \<and>
   candidateCell (update (newSnake Up)) = \<lparr>x = 4, y = 2\<rparr> \<and>
   tgtCellPos (segmentStore (update (update (newSnake Up))) ! 0) = \<lparr>x = 4, y = 2\<rparr> \<and>
   tgtCellPos (segmentStore (update (update (newSnake Up))) ! 1) = \<lparr>x = 4, y = 3\<rparr> \<and>
   tgtCellPos (segmentStore (update (update (newSnake Up))) ! 2) = \<lparr>x = 4, y = 4\<rparr>"
proof -
  let ?s = "update (newSnake Up)"
  have a: "chain_ok ?s" by (simp add: chain_ok_update chain_ok_newSnake)
  have b: "\<not> spec_deathCondition ?s"
    unfolding update_newSnake_Up
    by (simp add: spec_deathCondition_def candidateCell_def eval_defs)
  have c: "snakeSegments ?s = [0, 1, 2, 3, 4, 5, 6, 7, 8, 9, 10]"
    by (simp add: update_newSnake_Up snakeOf_def)
  have d: "tgtCellPos (segmentStore ?s ! 0) = \<lparr>x = 4, y = 3\<rparr>"
    "tgtCellPos (segmentStore ?s ! 1) = \<lparr>x = 4, y = 4\<rparr>"
    by (simp_all add: update_newSnake_Up snakeOf_def chainOf_def)
  have e: "candidateCell ?s = \<lparr>x = 4, y = 2\<rparr>"
    unfolding update_newSnake_Up by (simp add: candidateCell_def eval_defs)
  note m = update_moves_chain [OF a b]
  from m have segs: "snakeSegments (update ?s) = snakeSegments ?s" by blast
  from m have head: "tgtCellPos (segmentStore (update ?s) ! hd (snakeSegments ?s)) = candidateCell ?s"
    by blast
  from m have body: "\<And>i. 0 < i \<Longrightarrow> i < length (snakeSegments ?s) \<Longrightarrow>
      tgtCellPos (segmentStore (update ?s) ! (snakeSegments ?s ! i)) =
      tgtCellPos (segmentStore ?s ! (snakeSegments ?s ! (i - 1)))"
    by blast
  have 0: "snakeSegments (update ?s) = [0, 1, 2, 3, 4, 5, 6, 7, 8, 9, 10]"
    using segs by (simp only: c)
  have 1: "tgtCellPos (segmentStore (update ?s) ! 0) = \<lparr>x = 4, y = 2\<rparr>"
    using head unfolding c e by simp
  have 2: "tgtCellPos (segmentStore (update ?s) ! 1) = \<lparr>x = 4, y = 3\<rparr>"
    using body [of 1] unfolding c by (simp add: d)
  have 3: "tgtCellPos (segmentStore (update ?s) ! 2) = \<lparr>x = 4, y = 4\<rparr>"
    using body [of 2] d(2) unfolding c by simp
  show ?thesis using a b c d e 0 1 2 3 by simp
qed




text \<open>
  C4, as amended: after \<^verbatim>\<open>resetForStart\<close> the chain has exactly 11 segments, the head
  followed by the 10 segments grown; the head's target cell is the board's center cell
  (4, 4) and its draw position equals its target cell; every grown segment starts on the
  same cell.
\<close>

theorem resetForStart_chain:
  assumes "head_ok s"
  shows "length (snakeSegments (resetForStart s)) = 11 \<and>
         length (tl (snakeSegments (resetForStart s))) = 10 \<and>
         hd (snakeSegments (resetForStart s)) = snakeHeadSegment (resetForStart s) \<and>
         tgtCellPos (segmentStore (resetForStart s) ! snakeHeadSegment (resetForStart s)) =
           getCenterCell \<and>
         getCenterCell = \<lparr>x = 4, y = 4\<rparr> \<and>
         drawCellPos (segmentStore (resetForStart s) ! snakeHeadSegment (resetForStart s)) =
           tgtCellPos (segmentStore (resetForStart s) ! snakeHeadSegment (resetForStart s)) \<and>
         all_at getCenterCell (resetForStart s) \<and>
         chain_ok (resetForStart s)"
proof -
  note r = resetForStart_props [OF assms]
  have mem: "snakeHeadSegment (resetForStart s) \<in> set (snakeSegments (resetForStart s))"
    by (rule chain_ok_head(1) [OF r(1)])
  with r(2) have
    "tgtCellPos (segmentStore (resetForStart s) ! snakeHeadSegment (resetForStart s)) = getCenterCell"
    "drawCellPos (segmentStore (resetForStart s) ! snakeHeadSegment (resetForStart s)) = getCenterCell"
    by (simp_all add: all_at_def list_all_iff)
  moreover have "getCenterCell = \<lparr>x = 4, y = 4\<rparr>"
    by (simp add: getCenterCell_def boardNumCellsWide_def)
  ultimately show ?thesis
    using r chain_okD(2) [OF r(1)] by simp
qed

theorem resetForStart_chain_witness:
  "head_ok snakeAtLeftEdge \<and>
   tgtCellPos (segmentStore snakeAtLeftEdge ! snakeHeadSegment snakeAtLeftEdge) = \<lparr>x = 0, y = 4\<rparr> \<and>
   length (snakeSegments (resetForStart snakeAtLeftEdge)) = 11 \<and>
   snakeHeadSegment (resetForStart snakeAtLeftEdge) = 0 \<and>
   tgtCellPos (segmentStore (resetForStart snakeAtLeftEdge) ! 0) = \<lparr>x = 4, y = 4\<rparr> \<and>
   drawCellPos (segmentStore (resetForStart snakeAtLeftEdge) ! 0) = \<lparr>x = 4, y = 4\<rparr>"
proof -
  have a: "head_ok snakeAtLeftEdge"
    by (rule chain_ok_head_ok) (simp add: snakeAtLeftEdge_def chain_ok_update chain_ok_newSnake)
  have b: "tgtCellPos (segmentStore snakeAtLeftEdge ! snakeHeadSegment snakeAtLeftEdge) = \<lparr>x = 0, y = 4\<rparr>"
    "snakeHeadSegment snakeAtLeftEdge = 0"
    by (simp_all add: snakeAtLeftEdge_eq snakeOf_def chainOf_def)
  have c: "snakeHeadSegment (resetForStart snakeAtLeftEdge) = 0"
    using resetForStart_props(4) [OF a] b(2) by simp
  show ?thesis
    using resetForStart_chain [OF a] a b c by simp
qed

text \<open>
  C4, as stated, fails: the reset chain of the fresh snake has 11 segments, not 10.
\<close>

theorem resetForStart_chain_counterexample:
  "length (snakeSegments (resetForStart (newSnake Up))) = 11 \<and>
   length (snakeSegments (resetForStart (newSnake Up))) \<noteq> 10"
  using resetForStart_props(3) [OF chain_ok_head_ok [OF chain_ok_newSnake [of Up]]] by simp









text \<open>
  C9: in every run of the movement processor from its constructor, and from any state whose
  queued direction is not the opposite of the committed one, the direction a tick returns is
  never the exact opposite of the direction committed before that tick; a key press in the
  direction opposite to the committed one leaves the processor as it was, so it is dropped
  and not queued.
\<close>

theorem committed_direction_never_reverses:
  "(\<forall>pv\<in>set (tickDirections (newPlayerMovementProcessor dflt) inputs). snd pv \<noteq> negate (fst pv)) \<and>
   (queue_ok mp \<longrightarrow>
      (\<forall>pv\<in>set (tickDirections mp inputs). snd pv \<noteq> negate (fst pv)) \<and>
      fst (updateDirection mp) \<noteq> negate (dirVector (curDirection mp))) \<and>
   (keyDirection e = Some (opposite (curDirection mp)) \<longrightarrow> movement_onKeyDown e mp = mp)"
proof -
  have 1: "\<forall>pv\<in>set (tickDirections (newPlayerMovementProcessor dflt) inputs).
             snd pv \<noteq> negate (fst pv)"
    using tickDirections_not_opposite [OF queue_ok_new] by blast
  have 2: "\<forall>pv\<in>set (tickDirections mp inputs). snd pv \<noteq> negate (fst pv)" if "queue_ok mp"
    using tickDirections_not_opposite [OF that] by blast
  have 3: "movement_onKeyDown e mp = mp" if "keyDirection e = Some (opposite (curDirection mp))"
    using that by (simp add: movement_onKeyDown_def)
  show ?thesis
    using 1 2 3 updateDirection_not_opposite by blast
qed

theorem committed_direction_never_reverses_witness:
  "tickDirections (newPlayerMovementProcessor Up)
     [KeyPress \<lparr>key = ''ArrowDown'', code = ''ArrowDown''\<rparr>, Tick,
      KeyPress \<lparr>key = ''ArrowLeft'', code = ''ArrowLeft''\<rparr>,
      KeyPress \<lparr>key = ''ArrowRight'', code = ''ArrowRight''\<rparr>, Tick, Tick] =
     [(dirVector Up, dirVector Up), (dirVector Up, dirVector Right),
      (dirVector Right, dirVector Right)] \<and>
   dirVector Up \<noteq> negate (dirVector Up) \<and>
   dirVector Right \<noteq> negate (dirVector Up) \<and>
   dirVector Right \<noteq> negate (dirVector Right) \<and>
   keyDirection \<lparr>key = ''ArrowDown'', code = ''ArrowDown''\<rparr> =
     Some (opposite (curDirection (newPlayerMovementProcessor Up))) \<and>
   movement_onKeyDown \<lparr>key = ''ArrowDown'', code = ''ArrowDown''\<rparr> (newPlayerMovementProcessor Up) =
     newPlayerMovementProcessor Up"
proof -
  let ?inputs = "[KeyPress \<lparr>key = ''ArrowDown'', code = ''ArrowDown''\<rparr>, Tick,
      KeyPress \<lparr>key = ''ArrowLeft'', code = ''ArrowLeft''\<rparr>,
      KeyPress \<lparr>key = ''ArrowRight'', code = ''ArrowRight''\<rparr>, Tick, Tick]"
  have a: "tickDirections (newPlayerMovementProcessor Up) ?inputs =
     [(dirVector Up, dirVector Up), (dirVector Up, dirVector Right),
      (dirVector Right, dirVector Right)]"
    by (simp add: newPlayerMovementProcessor_def movement_onKeyDown_def keyDirection_def
        updateDirection_def)
  have b: "keyDirection \<lparr>key = ''ArrowDown'', code = ''ArrowDown''\<rparr> =
     Some (opposite (curDirection (newPlayerMovementProcessor Up)))"
    by (simp add: keyDirection_def newPlayerMovementProcessor_def)
  note m = committed_direction_never_reverses [of Up ?inputs "newPlayerMovementProcessor Up"
      "\<lparr>key = ''ArrowDown'', code = ''ArrowDown''\<rparr>"]
  from m have "\<forall>pv\<in>set (tickDirections (newPlayerMovementProcessor Up) ?inputs).
      snd pv \<noteq> negate (fst pv)" by blast
  then have c: "dirVector Up \<noteq> negate (dirVector Up)"
    "dirVector Right \<noteq> negate (dirVector Up)"
    "dirVector Right \<noteq> negate (dirVector Right)"
    unfolding a by simp_all
  from m b have d: "movement_onKeyDown \<lparr>key = ''ArrowDown'', code = ''ArrowDown''\<rparr>
      (newPlayerMovementProcessor Up) = newPlayerMovementProcessor Up" by blast
  show ?thesis using a b c d by simp
qed

end
